theory Spec2Isabelle
  imports Complex_Main "HOL-Library.Sublist"
begin

section \<open>Geometry extraction of \<open>dxf_to_stl_3dface.py\<close>\<close>

text \<open>
  The development embeds the geometry-extraction part of
  \<open>src/pre-processing/dxf_to_stl_3dface.py\<close> (function \<open>dxf_to_stl_3dface\<close>, from the
  initialisation of the buffers to the emptiness check that precedes the mesh export).
  The parsed document comes from the document library; it is the input of the model.
  Coordinates are Python floats in the source; here they are exact real numbers, so that
  rounding is outside the model. Console output is not modelled.
\<close>

subsection \<open>The parsed document\<close>

type_synonym vec3 = "real \<times> real \<times> real"

text \<open>
  One attribute of \<open>entity.dxf\<close>, as the source observes it: \<open>hasattr\<close> is false
  (\<open>Absent\<close>), the attribute is there and holds \<open>None\<close> (\<open>Null\<close>), it holds a value, or the
  access raises an exception.
\<close>

datatype 'a attr = Absent | Null | Value 'a | Raising

text \<open>
  Modelled from the spec: the TransformMatrix of a block instance (\<open>entity.matrix44()\<close> of
  the document library, which is not part of the sources), a 4x4 affine transform applied
  to a point; the translation is held by the last row.
\<close>

type_synonym row4 = "real \<times> real \<times> real \<times> real"
type_synonym matrix44 = "row4 \<times> row4 \<times> row4 \<times> row4"

fun transform :: "matrix44 \<Rightarrow> vec3 \<Rightarrow> vec3" where
  "transform ((m0, m1, m2, m3), (m4, m5, m6, m7), (m8, m9, m10, m11), (m12, m13, m14, m15)) (x, y, z) =
     (x * m0 + y * m4 + z * m8 + m12,
      x * m1 + y * m5 + z * m9 + m13,
      x * m2 + y * m6 + z * m10 + m14)"

definition translation :: "real \<Rightarrow> real \<Rightarrow> real \<Rightarrow> matrix44" where
  "translation dx dy dz = ((1, 0, 0, 0), (0, 1, 0, 0), (0, 0, 1, 0), (dx, dy, dz, 1))"

text \<open>A sub-record of a POLYLINE entity: \<open>vertex.dxf\<close> of one element of \<open>entity.vertices\<close>.\<close>

record vertex_rec =
  location :: "vec3 attr"
  vtx0 :: "int attr"
  vtx1 :: "int attr"
  vtx2 :: "int attr"
  vtx3 :: "int attr"

text \<open>
  The entities: a 3DFACE with its attributes \<open>vtx0\<close>, \<open>vtx1\<close>, \<open>vtx2\<close>, \<open>vtx3\<close>; an INSERT with
  \<open>dxf.name\<close> and \<open>matrix44()\<close>; a POLYLINE with \<open>is_poly_face_mesh\<close> and \<open>vertices\<close>; any other
  entity with its type name.
\<close>

datatype entity =
    Face3D "vec3 attr" "vec3 attr" "vec3 attr" "vec3 attr"
  | Insert string matrix44
  | Polyline bool "vertex_rec list"
  | Other string

fun dxftype :: "entity \<Rightarrow> string" where
  "dxftype (Face3D a b c d) = ''3DFACE''"
| "dxftype (Insert n m) = ''INSERT''"
| "dxftype (Polyline f vs) = ''POLYLINE''"
| "dxftype (Other t) = t"

record document =
  modelspace :: "entity list"
  blocks :: "string \<rightharpoonup> entity list"

definition query :: "string \<Rightarrow> entity list \<Rightarrow> entity list" where
  "query t es = filter (\<lambda>e. dxftype e = t) es"

text \<open>Lines 54-57: the dictionary of entity counts, and \<open>entity_counts.get(t, 0)\<close>.\<close>

definition entity_counts :: "entity list \<Rightarrow> (string \<rightharpoonup> nat)" where
  "entity_counts msp =
     foldl (\<lambda>counts e. counts(dxftype e \<mapsto> (case counts (dxftype e) of None \<Rightarrow> 0 | Some c \<Rightarrow> c) + 1))
       Map.empty msp"

definition get_count :: "(string \<rightharpoonup> nat) \<Rightarrow> string \<Rightarrow> nat" where
  "get_count counts t = (case counts t of None \<Rightarrow> 0 | Some c \<Rightarrow> c)"

subsection \<open>The buffers and counters\<close>

text \<open>Lines 64-71: the local variables that the three loops update.\<close>

record conv_state =
  all_vertices :: "vec3 list"
  all_faces :: "nat list list"
  vertex_offset :: nat
  valid_3dface :: nat
  invalid_3dface :: nat
  valid_polyline :: nat
  invalid_polyline :: nat

definition init_state :: conv_state where
  "init_state = \<lparr>all_vertices = [], all_faces = [], vertex_offset = 0,
     valid_3dface = 0, invalid_3dface = 0, valid_polyline = 0, invalid_polyline = 0\<rparr>"

subsection \<open>Deduplication of the corners of one face (lines 101-110)\<close>

fun close_to :: "vec3 \<Rightarrow> vec3 \<Rightarrow> bool" where
  "close_to (v0, v1, v2) (uv0, uv1, uv2) =
     (\<bar>v0 - uv0\<bar> < 0.001 \<and> \<bar>v1 - uv1\<bar> < 0.001 \<and> \<bar>v2 - uv2\<bar> < 0.001)"

fun is_duplicate :: "vec3 \<Rightarrow> vec3 list \<Rightarrow> bool" where
  "is_duplicate v [] = False"
| "is_duplicate v (uv # uvs) = (if close_to v uv then True else is_duplicate v uvs)"

fun unique_loop :: "vec3 list \<Rightarrow> vec3 list \<Rightarrow> vec3 list" where
  "unique_loop [] unique_verts = unique_verts"
| "unique_loop (v # vs) unique_verts =
     unique_loop vs (if is_duplicate v unique_verts then unique_verts else unique_verts @ [v])"

definition dedup :: "vec3 list \<Rightarrow> vec3 list" where
  "dedup vertices = unique_loop vertices []"

subsection \<open>Direct 3DFACE entities (lines 88-131)\<close>

text \<open>
  Lines 93-97: the corners that are present and not \<open>None\<close>, in attribute order. \<open>None\<close> is
  the exception that the \<open>try\<close> of line 89 catches.
\<close>

fun collect_corners :: "vec3 attr list \<Rightarrow> vec3 list \<Rightarrow> vec3 list option" where
  "collect_corners [] vertices = Some vertices"
| "collect_corners (Absent # attrs) vertices = collect_corners attrs vertices"
| "collect_corners (Null # attrs) vertices = collect_corners attrs vertices"
| "collect_corners (Value pt # attrs) vertices = collect_corners attrs (vertices @ [pt])"
| "collect_corners (Raising # attrs) vertices = None"

text \<open>Lines 99-128 (and their copy, lines 171-200): from the collected corners to the buffers.\<close>

definition emit_face :: "conv_state \<Rightarrow> vec3 list \<Rightarrow> conv_state" where
  "emit_face st vertices =
     (if length vertices \<ge> 3 then
        (let unique_verts = dedup vertices in
         if length unique_verts \<ge> 3 then
           (let start_idx = length (all_vertices st);
                st1 = st\<lparr>all_vertices := all_vertices st @ unique_verts\<rparr>;
                st2 = (if length unique_verts = 3
                       then st1\<lparr>all_faces := all_faces st1 @ [[start_idx, start_idx + 1, start_idx + 2]]\<rparr>
                       else st1\<lparr>all_faces := (all_faces st1 @ [[start_idx, start_idx + 1, start_idx + 2]])
                                                 @ [[start_idx, start_idx + 2, start_idx + 3]]\<rparr>)
            in st2\<lparr>valid_3dface := valid_3dface st2 + 1\<rparr>)
         else st\<lparr>invalid_3dface := invalid_3dface st + 1\<rparr>)
      else st\<lparr>invalid_3dface := invalid_3dface st + 1\<rparr>)"

fun process_3dface :: "conv_state \<Rightarrow> entity \<Rightarrow> conv_state" where
  "process_3dface st (Face3D a b c d) =
     (case collect_corners [a, b, c, d] [] of
        None \<Rightarrow> st\<lparr>invalid_3dface := invalid_3dface st + 1\<rparr>
      | Some vertices \<Rightarrow> emit_face st vertices)"
| "process_3dface st e = st"

subsection \<open>Block references (lines 140-203)\<close>

text \<open>Lines 163-169: as lines 93-97, with the block transformation applied to each corner.\<close>

fun collect_corners_transformed :: "matrix44 \<Rightarrow> vec3 attr list \<Rightarrow> vec3 list \<Rightarrow> vec3 list option" where
  "collect_corners_transformed insert_matrix [] vertices = Some vertices"
| "collect_corners_transformed insert_matrix (Absent # attrs) vertices =
     collect_corners_transformed insert_matrix attrs vertices"
| "collect_corners_transformed insert_matrix (Null # attrs) vertices =
     collect_corners_transformed insert_matrix attrs vertices"
| "collect_corners_transformed insert_matrix (Value pt # attrs) vertices =
     collect_corners_transformed insert_matrix attrs (vertices @ [transform insert_matrix pt])"
| "collect_corners_transformed insert_matrix (Raising # attrs) vertices = None"

fun process_block_3dface :: "matrix44 \<Rightarrow> conv_state \<Rightarrow> entity \<Rightarrow> conv_state" where
  "process_block_3dface insert_matrix st (Face3D a b c d) =
     (case collect_corners_transformed insert_matrix [a, b, c, d] [] of
        None \<Rightarrow> st\<lparr>invalid_3dface := invalid_3dface st + 1\<rparr>
      | Some vertices \<Rightarrow> emit_face st vertices)"
| "process_block_3dface insert_matrix st e = st"

text \<open>
  Lines 144-203: one INSERT entity. A name with no block definition is skipped; only the
  3DFACE entities directly inside the block are processed.
\<close>

fun process_insert :: "document \<Rightarrow> conv_state \<Rightarrow> entity \<Rightarrow> conv_state" where
  "process_insert doc st (Insert block_name insert_matrix) =
     (case blocks doc block_name of
        None \<Rightarrow> st
      | Some block \<Rightarrow> foldl (process_block_3dface insert_matrix) st (query ''3DFACE'' block))"
| "process_insert doc st e = st"

subsection \<open>Polyface meshes (lines 212-260)\<close>

text \<open>
  Lines 227-232: the local vertex table and the map from the position of a sub-record to
  its position in that table. A location that is \<open>None\<close> raises at \<open>loc.x\<close>.
\<close>

fun collect_locations ::
  "vertex_rec list \<Rightarrow> nat \<Rightarrow> vec3 list \<Rightarrow> (nat \<rightharpoonup> nat) \<Rightarrow> (vec3 list \<times> (nat \<rightharpoonup> nat)) option" where
  "collect_locations [] i vertices vertex_map = Some (vertices, vertex_map)"
| "collect_locations (vertex # rest) i vertices vertex_map =
     (case location vertex of
        Absent \<Rightarrow> collect_locations rest (i + 1) vertices vertex_map
      | Null \<Rightarrow> None
      | Value loc \<Rightarrow>
          collect_locations rest (i + 1) (vertices @ [loc]) (vertex_map(i \<mapsto> length vertices))
      | Raising \<Rightarrow> None)"

text \<open>Lines 239-245: the indices of one face record that resolve to a collected vertex.\<close>

fun resolve_indices :: "int attr list \<Rightarrow> (nat \<rightharpoonup> nat) \<Rightarrow> nat \<Rightarrow> nat list \<Rightarrow> nat list option" where
  "resolve_indices [] vertex_map offset face_indices = Some face_indices"
| "resolve_indices (Absent # attrs) vertex_map offset face_indices =
     resolve_indices attrs vertex_map offset face_indices"
| "resolve_indices (Null # attrs) vertex_map offset face_indices =
     resolve_indices attrs vertex_map offset face_indices"
| "resolve_indices (Value idx # attrs) vertex_map offset face_indices =
     (if idx \<noteq> 0 then
        (let actual_idx = nat (\<bar>idx\<bar> - 1) in
         case vertex_map actual_idx of
           Some k \<Rightarrow> resolve_indices attrs vertex_map offset (face_indices @ [k + offset])
         | None \<Rightarrow> resolve_indices attrs vertex_map offset face_indices)
      else resolve_indices attrs vertex_map offset face_indices)"
| "resolve_indices (Raising # attrs) vertex_map offset face_indices = None"

text \<open>Lines 247-252.\<close>

definition append_faces :: "nat list list \<Rightarrow> nat list \<Rightarrow> nat list list" where
  "append_faces faces face_indices =
     (if length face_indices \<ge> 3 then
        (if length face_indices = 3 then faces @ [face_indices]
         else if length face_indices = 4 then
           (faces @ [[face_indices ! 0, face_indices ! 1, face_indices ! 2]])
             @ [[face_indices ! 0, face_indices ! 2, face_indices ! 3]]
         else faces)
      else faces)"

text \<open>
  Lines 235-252: the loop over the sub-records. \<open>Inl\<close> is an exception, with the faces
  appended before it was raised; \<open>Inr\<close> is the normal end of the loop.
\<close>

fun extract_faces ::
  "vertex_rec list \<Rightarrow> (nat \<rightharpoonup> nat) \<Rightarrow> nat \<Rightarrow> nat list list \<Rightarrow> nat list list + nat list list" where
  "extract_faces [] vertex_map offset faces = Inr faces"
| "extract_faces (vertex # rest) vertex_map offset faces =
     (case vtx0 vertex of
        Absent \<Rightarrow> extract_faces rest vertex_map offset faces
      | Raising \<Rightarrow> Inl faces
      | _ \<Rightarrow>
         (case resolve_indices [vtx0 vertex, vtx1 vertex, vtx2 vertex, vtx3 vertex]
                 vertex_map offset [] of
            None \<Rightarrow> Inl faces
          | Some face_indices \<Rightarrow>
              extract_faces rest vertex_map offset (append_faces faces face_indices)))"

text \<open>Lines 218-258: one polyface mesh, with the \<open>try\<close> and its handler.\<close>

definition process_polyface :: "conv_state \<Rightarrow> vertex_rec list \<Rightarrow> conv_state" where
  "process_polyface st vertex_list =
     (let st1 = st\<lparr>valid_polyline := valid_polyline st + 1\<rparr> in
      case collect_locations vertex_list 0 [] Map.empty of
        None \<Rightarrow> st1\<lparr>invalid_polyline := invalid_polyline st1 + 1\<rparr>
      | Some (vertices, vertex_map) \<Rightarrow>
         (case extract_faces vertex_list vertex_map (vertex_offset st1) (all_faces st1) of
            Inl faces \<Rightarrow> st1\<lparr>all_faces := faces, invalid_polyline := invalid_polyline st1 + 1\<rparr>
          | Inr faces \<Rightarrow>
              st1\<lparr>all_faces := faces,
                  all_vertices := all_vertices st1 @ vertices,
                  vertex_offset := vertex_offset st1 + length vertices\<rparr>))"

fun process_polyline :: "conv_state \<Rightarrow> entity \<Rightarrow> conv_state" where
  "process_polyline st (Polyline is_poly_face_mesh vertex_list) =
     (if is_poly_face_mesh then process_polyface st vertex_list else st)"
| "process_polyline st e = st"

subsection \<open>The conversion (lines 63-279)\<close>

text \<open>Lines 88-131, 140-203 and 212-260: the three loops over the modelspace.\<close>

definition run_3dfaces :: "document \<Rightarrow> conv_state \<Rightarrow> conv_state" where
  "run_3dfaces doc st = foldl process_3dface st (query ''3DFACE'' (modelspace doc))"

definition run_inserts :: "document \<Rightarrow> conv_state \<Rightarrow> conv_state" where
  "run_inserts doc st =
     (if get_count (entity_counts (modelspace doc)) ''INSERT'' > 0
      then foldl (process_insert doc) st (query ''INSERT'' (modelspace doc)) else st)"

definition run_polylines :: "document \<Rightarrow> conv_state \<Rightarrow> conv_state" where
  "run_polylines doc st =
     (if get_count (entity_counts (modelspace doc)) ''POLYLINE'' > 0
      then foldl process_polyline st (query ''POLYLINE'' (modelspace doc)) else st)"

definition extract_geometry :: "document \<Rightarrow> conv_state" where
  "extract_geometry doc = run_polylines doc (run_inserts doc (run_3dfaces doc init_state))"

datatype error = RuntimeError

text \<open>
  Lines 275-279: the \<open>RuntimeError\<close> "No valid 3D geometry found!". The result \<open>Inr\<close> is
  what the source goes on to build the mesh from.
\<close>

definition dxf_to_stl_3dface :: "document \<Rightarrow> error + conv_state" where
  "dxf_to_stl_3dface doc =
     (let st = extract_geometry doc in
      if length (all_vertices st) = 0 \<or> length (all_faces st) = 0
      then Inl RuntimeError else Inr st)"

subsection \<open>Reference inputs\<close>

text \<open>
  A face entity moved by \<open>(dx, dy, dz)\<close>: every corner that holds a point is shifted, the
  other attributes are left as they are.
\<close>

fun translate_attr :: "real \<Rightarrow> real \<Rightarrow> real \<Rightarrow> vec3 attr \<Rightarrow> vec3 attr" where
  "translate_attr dx dy dz (Value (x, y, z)) = Value (x + dx, y + dy, z + dz)"
| "translate_attr dx dy dz Absent = Absent"
| "translate_attr dx dy dz Null = Null"
| "translate_attr dx dy dz Raising = Raising"

fun translate_face :: "real \<Rightarrow> real \<Rightarrow> real \<Rightarrow> entity \<Rightarrow> entity" where
  "translate_face dx dy dz (Face3D a b c d) =
     Face3D (translate_attr dx dy dz a) (translate_attr dx dy dz b)
       (translate_attr dx dy dz c) (translate_attr dx dy dz d)"
| "translate_face dx dy dz e = e"

text \<open>
  Scenario B: one block instance at (100, 200, 0), with no rotation and no scaling, of a
  block that holds one face with three corners.
\<close>

definition scenario_b :: document where
  "scenario_b = \<lparr>modelspace = [Insert ''B'' (translation 100 200 0)],
     blocks = [''B'' \<mapsto> [Face3D (Value (0, 0, 0)) (Value (1, 0, 0)) (Value (0, 1, 0)) Absent]]\<rparr>"

subsection \<open>Notions used in the properties\<close>

text \<open>
  A sub-record that holds a coordinate only, and a face record with its four indices.
\<close>

definition vertex_record :: "vec3 \<Rightarrow> vertex_rec" where
  "vertex_record p = \<lparr>location = Value p, vtx0 = Absent, vtx1 = Absent, vtx2 = Absent, vtx3 = Absent\<rparr>"

definition face_record :: "int \<Rightarrow> int \<Rightarrow> int \<Rightarrow> int \<Rightarrow> vertex_rec" where
  "face_record i0 i1 i2 i3 = \<lparr>location = Absent, vtx0 = Value i0, vtx1 = Value i1, vtx2 = Value i2, vtx3 = Value i3\<rparr>"

text \<open>
  The number of sub-records before position \<open>j\<close> that hold a coordinate: the position, in
  the local vertex table, of the vertex of the sub-record at position \<open>j\<close>.
\<close>

definition local_ordinal :: "vertex_rec list \<Rightarrow> nat \<Rightarrow> nat" where
  "local_ordinal vertex_list j = length (filter (\<lambda>r. location r \<noteq> Absent) (take j vertex_list))"

text \<open>Every triangle of the buffer has three indices, all within the vertex buffer.\<close>

definition in_range :: "conv_state \<Rightarrow> bool" where
  "in_range st \<longleftrightarrow>
     (\<forall>t\<in>set (all_faces st). length t = 3 \<and> (\<forall>i\<in>set t. i < length (all_vertices st)))"

text \<open>The same, with pairwise distinct indices.\<close>

definition faces_ok :: "conv_state \<Rightarrow> bool" where
  "faces_ok st \<longleftrightarrow>
     (\<forall>t\<in>set (all_faces st). length t = 3 \<and> distinct t \<and> (\<forall>i\<in>set t. i < length (all_vertices st)))"

text \<open>
  From \<open>st\<close> to \<open>st'\<close> both buffers grow at the end only, and every new triangle has
  three distinct indices that point to the new vertices.
\<close>

definition fresh_triangles :: "conv_state \<Rightarrow> conv_state \<Rightarrow> bool" where
  "fresh_triangles st st' \<longleftrightarrow>
     prefix (all_vertices st) (all_vertices st') \<and> prefix (all_faces st) (all_faces st')
     \<and> (\<forall>t\<in>set (drop (length (all_faces st)) (all_faces st')).
           length t = 3 \<and> distinct t
           \<and> (\<forall>i\<in>set t. length (all_vertices st) \<le> i \<and> i < length (all_vertices st')))"

text \<open>The invariants of the loops over the faces and over the polyface meshes.\<close>

definition face_stage :: "conv_state \<Rightarrow> bool" where
  "face_stage st \<longleftrightarrow> faces_ok st \<and> vertex_offset st = 0 \<and> invalid_polyline st = 0"

definition polyline_stage :: "conv_state \<Rightarrow> bool" where
  "polyline_stage st \<longleftrightarrow>
     vertex_offset st \<le> length (all_vertices st) \<and> (invalid_polyline st = 0 \<longrightarrow> in_range st)"

subsection \<open>Reference documents\<close>

text \<open>A direct face with three corners, and a polyface mesh with three vertices and one face.\<close>

definition triangle_face :: entity where
  "triangle_face = Face3D (Value (0, 0, 0)) (Value (1, 0, 0)) (Value (0, 1, 0)) Absent"

definition triangle_polyface :: entity where
  "triangle_polyface = Polyline True
     [vertex_record (5, 5, 5), vertex_record (6, 5, 5), vertex_record (5, 6, 5), face_record 1 2 3 0]"

text \<open>The direct face followed by the polyface mesh.\<close>

definition mixed_doc :: document where
  "mixed_doc = \<lparr>modelspace = [triangle_face, triangle_polyface], blocks = Map.empty\<rparr>"

text \<open>
  A polyface mesh whose only sub-record has a location that is \<open>None\<close>, so that \<open>loc.x\<close>
  raises, followed by a well-formed one.
\<close>

definition null_location :: vertex_rec where
  "null_location = \<lparr>location = Null, vtx0 = Absent, vtx1 = Absent, vtx2 = Absent, vtx3 = Absent\<rparr>"

definition raising_polyface_doc :: document where
  "raising_polyface_doc =
     \<lparr>modelspace = [Polyline True [null_location], triangle_polyface], blocks = Map.empty\<rparr>"

text \<open>A polyface mesh whose face record names its first vertex twice.\<close>

definition repeated_index_doc :: document where
  "repeated_index_doc =
     \<lparr>modelspace = [Polyline True [vertex_record (0, 0, 0), vertex_record (1, 0, 0), face_record 1 1 2 0]],
      blocks = Map.empty\<rparr>"

text \<open>
  A sub-record as the document library exposes it: it holds a location, and its four
  index attributes are as given.
\<close>

definition located_record :: "vec3 \<Rightarrow> int attr \<Rightarrow> int attr \<Rightarrow> int attr \<Rightarrow> int attr \<Rightarrow> vertex_rec" where
  "located_record p a0 a1 a2 a3 = \<lparr>location = Value p, vtx0 = a0, vtx1 = a1, vtx2 = a2, vtx3 = a3\<rparr>"

text \<open>Four vertex records followed by one face record, every sub-record with a location.\<close>

definition located_quad :: "vertex_rec list" where
  "located_quad =
     [located_record (0, 0, 0) Null Null Null Null, located_record (1, 0, 0) Null Null Null Null,
      located_record (1, 1, 0) Null Null Null Null, located_record (0, 1, 0) Null Null Null Null,
      located_record (0, 0, 0) (Value 1) (Value 2) (Value 3) (Value 4)]"

text \<open>A polyface mesh whose only face record has two indices.\<close>

definition vertices_only_polyface :: "vertex_rec list" where
  "vertices_only_polyface = [vertex_record (9, 9, 9), vertex_record (8, 8, 8), face_record 1 2 0 0]"

text \<open>The direct face followed by a polyface mesh that holds one vertex and no face.\<close>

definition unreferenced_doc :: document where
  "unreferenced_doc =
     \<lparr>modelspace = [triangle_face, Polyline True [vertex_record (9, 9, 9)]], blocks = Map.empty\<rparr>"

section \<open>Properties\<close>

subsection \<open>Deduplication\<close>

lemma is_duplicate_iff: "is_duplicate v us \<longleftrightarrow> (\<exists>u\<in>set us. close_to v u)"
  by (induction us) auto

lemma unique_loop_snoc:
  "unique_loop (vs @ [v]) acc =
     (if is_duplicate v (unique_loop vs acc) then unique_loop vs acc else unique_loop vs acc @ [v])"
  by (induction vs arbitrary: acc) auto

lemma unique_loop_subseq: "\<exists>r. unique_loop vs acc = acc @ r \<and> subseq r vs"
proof (induction vs arbitrary: acc)
  case Nil
  then show ?case by simp
next
  case (Cons v vs)
  show ?case
  proof (cases "is_duplicate v acc")
    case True
    from Cons.IH [of acc] obtain r where "unique_loop vs acc = acc @ r" "subseq r vs"
      by blast
    with True show ?thesis by auto
  next
    case False
    from Cons.IH [of "acc @ [v]"] obtain r
      where "unique_loop vs (acc @ [v]) = (acc @ [v]) @ r" "subseq r vs"
      by blast
    with False show ?thesis by auto
  qed
qed

lemma dedup_subseq: "subseq (dedup vs) vs"
  using unique_loop_subseq [of vs "[]"] by (auto simp: dedup_def)

text \<open>
  Claim C4. The deduplication keeps the points in their order and drops a point exactly
  when it is within 0.001 on every axis of a point accepted before it: the result for a
  list extended by one point \<open>v\<close> is the result for the list, followed by \<open>v\<close> unless \<open>v\<close> is
  close to one of the accepted points (so the first occurrence wins and only accepted
  points are compared). Two points that differ by 0.0009 on every axis merge into one; two
  points that differ by 0.0011 on some axis do not merge. This holds for every length of
  the list, in particular for at most 4 points.
\<close>

theorem dedup_first_occurrence_wins:
  "dedup [] = []
   \<and> dedup (vs @ [v]) = (if (\<exists>u\<in>set (dedup vs). close_to v u) then dedup vs else dedup vs @ [v])
   \<and> subseq (dedup vs) vs
   \<and> (close_to (x, y, z) (a, b, c) \<longleftrightarrow> \<bar>x - a\<bar> < 0.001 \<and> \<bar>y - b\<bar> < 0.001 \<and> \<bar>z - c\<bar> < 0.001)
   \<and> dedup [(x, y, z), (x + 0.0009, y + 0.0009, z + 0.0009)] = [(x, y, z)]
   \<and> (\<bar>x - a\<bar> = 0.0011 \<or> \<bar>y - b\<bar> = 0.0011 \<or> \<bar>z - c\<bar> = 0.0011
        \<longrightarrow> dedup [(a, b, c), (x, y, z)] = [(a, b, c), (x, y, z)])"
proof -
  have 1: "dedup [] = []" by (simp add: dedup_def)
  have 2: "dedup (vs @ [v]) = (if (\<exists>u\<in>set (dedup vs). close_to v u) then dedup vs else dedup vs @ [v])"
    unfolding dedup_def by (simp only: unique_loop_snoc is_duplicate_iff)
  have 5: "dedup [(x, y, z), (x + 0.0009, y + 0.0009, z + 0.0009)] = [(x, y, z)]"
    by (simp add: dedup_def)
  have 6: "\<bar>x - a\<bar> = 0.0011 \<or> \<bar>y - b\<bar> = 0.0011 \<or> \<bar>z - c\<bar> = 0.0011
        \<longrightarrow> dedup [(a, b, c), (x, y, z)] = [(a, b, c), (x, y, z)]"
    by (auto simp: dedup_def)
  from 1 2 5 6 show ?thesis by (simp add: dedup_subseq)
qed

theorem dedup_first_occurrence_wins_witness:
  "\<bar>(0.0011::real) - 0\<bar> = 0.0011
   \<and> dedup [(0, 0, 0), (0.0011, 5, 5)] = [(0, 0, 0), (0.0011, 5, 5)]
   \<and> (\<exists>u\<in>set (dedup [(1, 2, 3), (4, 5, 6)]). close_to (1.0005, 2, 3.0005) u)
   \<and> dedup ([(1, 2, 3), (4, 5, 6)] @ [(1.0005, 2, 3.0005)]) = dedup [(1, 2, 3), (4, 5, 6)]"
  using dedup_first_occurrence_wins
    [where vs = "[(1, 2, 3), (4, 5, 6)]" and v = "(1.0005, 2, 3.0005)"
       and x = "0.0011" and y = 5 and z = 5 and a = 0 and b = 0 and c = 0]
  by (simp add: dedup_def)

subsection \<open>Face entities\<close>

lemma collect_corners_length:
  "collect_corners attrs acc = Some cs \<Longrightarrow> length cs \<le> length acc + length attrs"
  by (induction attrs acc rule: collect_corners.induct) auto

lemma collect_corners_transformed_length:
  "collect_corners_transformed m attrs acc = Some cs \<Longrightarrow> length cs \<le> length acc + length attrs"
  by (induction m attrs acc rule: collect_corners_transformed.induct) auto

lemma dedup_length: "length (dedup cs) \<le> length cs"
  using dedup_subseq [of cs] by (rule list_emb_length)

lemma emit_face_valid:
  assumes "3 \<le> length (dedup cs)" "length cs \<le> 4"
  shows "emit_face st cs =
     st\<lparr>all_vertices := all_vertices st @ dedup cs,
        all_faces := all_faces st @
          (if length (dedup cs) = 3
           then [[length (all_vertices st), length (all_vertices st) + 1, length (all_vertices st) + 2]]
           else [[length (all_vertices st), length (all_vertices st) + 1, length (all_vertices st) + 2],
                 [length (all_vertices st), length (all_vertices st) + 2, length (all_vertices st) + 3]]),
        valid_3dface := valid_3dface st + 1\<rparr>"
proof -
  have "3 \<le> length cs" using assms(1) dedup_length [of cs] by linarith
  with assms show ?thesis by (simp add: emit_face_def Let_def)
qed

lemma emit_face_invalid:
  assumes "length cs < 3 \<or> length (dedup cs) < 3"
  shows "emit_face st cs = st\<lparr>invalid_3dface := invalid_3dface st + 1\<rparr>"
  using assms by (auto simp: emit_face_def Let_def)


lemma process_3dface_valid:
  assumes "collect_corners [a, b, c, d] [] = Some cs" "3 \<le> length (dedup cs)"
  shows "process_3dface st (Face3D a b c d) =
     st\<lparr>all_vertices := all_vertices st @ dedup cs,
        all_faces := all_faces st @
          (if length (dedup cs) = 3
           then [[length (all_vertices st), length (all_vertices st) + 1, length (all_vertices st) + 2]]
           else [[length (all_vertices st), length (all_vertices st) + 1, length (all_vertices st) + 2],
                 [length (all_vertices st), length (all_vertices st) + 2, length (all_vertices st) + 3]]),
        valid_3dface := valid_3dface st + 1\<rparr>"
proof -
  have "length cs \<le> 4" using collect_corners_length [OF assms(1)] by simp
  with assms show ?thesis by (simp add: emit_face_valid)
qed

lemma process_block_3dface_valid:
  assumes "collect_corners_transformed m [a, b, c, d] [] = Some cs" "3 \<le> length (dedup cs)"
  shows "process_block_3dface m st (Face3D a b c d) =
     st\<lparr>all_vertices := all_vertices st @ dedup cs,
        all_faces := all_faces st @
          (if length (dedup cs) = 3
           then [[length (all_vertices st), length (all_vertices st) + 1, length (all_vertices st) + 2]]
           else [[length (all_vertices st), length (all_vertices st) + 1, length (all_vertices st) + 2],
                 [length (all_vertices st), length (all_vertices st) + 2, length (all_vertices st) + 3]]),
        valid_3dface := valid_3dface st + 1\<rparr>"
proof -
  have "length cs \<le> 4" using collect_corners_transformed_length [OF assms(1)] by simp
  with assms show ?thesis by (simp add: emit_face_valid)
qed

lemma dedup_3_or_4:
  assumes "length cs \<le> 4" "3 \<le> length (dedup cs)"
  shows "length (dedup cs) = 3 \<or> length (dedup cs) = 4"
  using assms dedup_length [of cs] by linarith


text \<open>
  Claim C3. A direct face entity, or a face entity nested in a block, whose corners are
  collected without an exception and give at least 3 unique points: the unique corners
  are appended to the vertex buffer in their order; there are 3 or 4 of them; with 3, one
  triangle \<open>(c0, c1, c2)\<close> is appended, with 4, the two triangles \<open>(c0, c1, c2)\<close> and
  \<open>(c0, c2, c3)\<close>, whose indices are the positions of these corners in the vertex buffer;
  the counter of valid faces grows by 1 and the other counters stay.
\<close>

theorem face_with_three_unique_corners:
  assumes "(collect_corners [a, b, c, d] [] = Some cs \<and> st' = process_3dface st (Face3D a b c d))
         \<or> (collect_corners_transformed m [a, b, c, d] [] = Some cs
              \<and> st' = process_block_3dface m st (Face3D a b c d))"
    and "3 \<le> length (dedup cs)"
    and "n = length (all_vertices st)"
  shows "all_vertices st' = all_vertices st @ dedup cs
     \<and> (length (dedup cs) = 3 \<or> length (dedup cs) = 4)
     \<and> (length (dedup cs) = 3 \<longrightarrow> all_faces st' = all_faces st @ [[n, n + 1, n + 2]])
     \<and> (length (dedup cs) = 4 \<longrightarrow>
          all_faces st' = all_faces st @ [[n, n + 1, n + 2], [n, n + 2, n + 3]])
     \<and> (\<forall>k < length (dedup cs). all_vertices st' ! (n + k) = dedup cs ! k)
     \<and> valid_3dface st' = valid_3dface st + 1
     \<and> invalid_3dface st' = invalid_3dface st
     \<and> vertex_offset st' = vertex_offset st
     \<and> valid_polyline st' = valid_polyline st
     \<and> invalid_polyline st' = invalid_polyline st"
proof -
  have len: "length cs \<le> 4"
    using assms(1) collect_corners_length [of "[a, b, c, d]" "[]" cs]
      collect_corners_transformed_length [of m "[a, b, c, d]" "[]" cs]
    by auto
  have st': "st' = st\<lparr>all_vertices := all_vertices st @ dedup cs,
        all_faces := all_faces st @
          (if length (dedup cs) = 3
           then [[length (all_vertices st), length (all_vertices st) + 1, length (all_vertices st) + 2]]
           else [[length (all_vertices st), length (all_vertices st) + 1, length (all_vertices st) + 2],
                 [length (all_vertices st), length (all_vertices st) + 2, length (all_vertices st) + 3]]),
        valid_3dface := valid_3dface st + 1\<rparr>"
    using assms(1,2) process_3dface_valid [of a b c d cs st]
      process_block_3dface_valid [of m a b c d cs st]
    by auto
  show ?thesis
    using dedup_3_or_4 [OF len assms(2)] assms(3)
    by (auto simp: st' nth_append)
qed

theorem face_with_three_unique_corners_witness:
  "collect_corners [Value (0, 0, 0), Value (1, 0, 0), Value (1, 1, 0), Value (0, 1, 0)] []
     = Some [(0, 0, 0), (1, 0, 0), (1, 1, 0), (0, 1, 0)]
   \<and> 3 \<le> length (dedup [(0, 0, 0), (1, 0, 0), (1, 1, 0), (0, 1, 0)])
   \<and> all_vertices (process_3dface init_state
        (Face3D (Value (0, 0, 0)) (Value (1, 0, 0)) (Value (1, 1, 0)) (Value (0, 1, 0))))
     = [(0, 0, 0), (1, 0, 0), (1, 1, 0), (0, 1, 0)]
   \<and> all_faces (process_3dface init_state
        (Face3D (Value (0, 0, 0)) (Value (1, 0, 0)) (Value (1, 1, 0)) (Value (0, 1, 0))))
     = [[0, 1, 2], [0, 2, 3]]"
  using face_with_three_unique_corners
    [where a = "Value (0, 0, 0)" and b = "Value (1, 0, 0)" and c = "Value (1, 1, 0)"
       and d = "Value (0, 1, 0)" and cs = "[(0, 0, 0), (1, 0, 0), (1, 1, 0), (0, 1, 0)]"
       and st = init_state and n = 0 and m = "translation 0 0 0"
       and st' = "process_3dface init_state
          (Face3D (Value (0, 0, 0)) (Value (1, 0, 0)) (Value (1, 1, 0)) (Value (0, 1, 0)))"]
  by (simp add: dedup_def init_state_def)

text \<open>
  Claim C6. A direct or block-nested face entity with fewer than 3 present corners, or
  with fewer than 3 unique corners after deduplication, leaves both buffers as they are,
  adds 1 to the counter of invalid faces and leaves the counter of valid faces as it is.
\<close>

theorem face_with_fewer_than_three_corners:
  assumes "(collect_corners [a, b, c, d] [] = Some cs \<and> st' = process_3dface st (Face3D a b c d))
         \<or> (collect_corners_transformed m [a, b, c, d] [] = Some cs
              \<and> st' = process_block_3dface m st (Face3D a b c d))"
    and "length cs < 3 \<or> length (dedup cs) < 3"
  shows "st' = st\<lparr>invalid_3dface := invalid_3dface st + 1\<rparr>
     \<and> all_vertices st' = all_vertices st
     \<and> all_faces st' = all_faces st
     \<and> invalid_3dface st' = invalid_3dface st + 1
     \<and> valid_3dface st' = valid_3dface st"
  using assms by (auto simp: emit_face_invalid)

theorem face_with_fewer_than_three_corners_witness:
  "collect_corners [Value (0, 0, 0), Value (1, 0, 0), Value (1, 0.0005, 0), Value (0, 0, 0.0002)] []
     = Some [(0, 0, 0), (1, 0, 0), (1, 0.0005, 0), (0, 0, 0.0002)]
   \<and> length (dedup [(0, 0, 0), (1, 0, 0), (1, 0.0005, 0), (0, 0, 0.0002)]) < 3
   \<and> process_3dface init_state
        (Face3D (Value (0, 0, 0)) (Value (1, 0, 0)) (Value (1, 0.0005, 0)) (Value (0, 0, 0.0002)))
     = init_state\<lparr>invalid_3dface := 1\<rparr>"
  using face_with_fewer_than_three_corners
    [where a = "Value (0, 0, 0)" and b = "Value (1, 0, 0)" and c = "Value (1, 0.0005, 0)"
       and d = "Value (0, 0, 0.0002)" and cs = "[(0, 0, 0), (1, 0, 0), (1, 0.0005, 0), (0, 0, 0.0002)]"
       and st = init_state and m = "translation 0 0 0"
       and st' = "process_3dface init_state
          (Face3D (Value (0, 0, 0)) (Value (1, 0, 0)) (Value (1, 0.0005, 0)) (Value (0, 0, 0.0002)))"]
  by (simp add: dedup_def init_state_def)

subsection \<open>Block instances\<close>

lemma transform_translation: "transform (translation dx dy dz) (x, y, z) = (x + dx, y + dy, z + dz)"
  by (simp add: translation_def)

lemma collect_corners_translation:
  "collect_corners_transformed (translation dx dy dz) attrs acc =
     collect_corners (map (translate_attr dx dy dz) attrs) acc"
proof (induction attrs arbitrary: acc)
  case Nil
  show ?case by simp
next
  case (Cons x attrs)
  show ?case
  proof (cases x)
    case (Value pt)
    obtain px py pz where "pt = (px, py, pz)" by (cases pt)
    with Value Cons show ?thesis by (simp add: transform_translation)
  qed (simp_all add: Cons)
qed

lemma process_block_3dface_translation:
  "process_block_3dface (translation dx dy dz) st e = process_3dface st (translate_face dx dy dz e)"
proof (cases e)
  case (Face3D a b c d)
  show ?thesis
    using collect_corners_translation [of dx dy dz "[a, b, c, d]" "[]"]
    by (simp add: Face3D)
qed simp_all

lemma foldl_block_translation:
  "foldl (process_block_3dface (translation dx dy dz)) st es =
     foldl process_3dface st (map (translate_face dx dy dz) es)"
  by (induction es arbitrary: st) (simp_all add: process_block_3dface_translation)

text \<open>
  Claim C9. A block instance whose matrix is the translation by \<open>(dx, dy, dz)\<close> changes the
  buffers and counters as the direct face entities with the corners of the faces of the
  block plus \<open>(dx, dy, dz)\<close> do. In scenario B the translation by (100, 200, 0) of the face
  (0,0,0), (1,0,0), (0,1,0) gives the vertices (100,200,0), (101,200,0), (100,201,0) and one
  triangle.
\<close>

theorem translated_block_face_as_direct_face:
  "(blocks doc block_name = Some block \<longrightarrow>
      process_insert doc st (Insert block_name (translation dx dy dz)) =
        foldl process_3dface st (map (translate_face dx dy dz) (query ''3DFACE'' block)))
   \<and> all_vertices (extract_geometry scenario_b) = [(100, 200, 0), (101, 200, 0), (100, 201, 0)]
   \<and> all_faces (extract_geometry scenario_b) = [[0, 1, 2]]"
proof (intro conjI impI)
  assume "blocks doc block_name = Some block"
  then show "process_insert doc st (Insert block_name (translation dx dy dz)) =
        foldl process_3dface st (map (translate_face dx dy dz) (query ''3DFACE'' block))"
    by (simp add: foldl_block_translation)
next
  have run: "extract_geometry scenario_b =
      emit_face init_state [(100, 200, 0), (101, 200, 0), (100, 201, 0)]"
    by (simp add: extract_geometry_def run_polylines_def run_inserts_def run_3dfaces_def
        scenario_b_def query_def entity_counts_def get_count_def translation_def)
  have d: "dedup [(100, 200, 0), (101, 200, 0), (100, 201, 0)] = [(100, 200, 0), (101, 200, 0), (100, 201, 0)]"
    by (simp add: dedup_def)
  show "all_vertices (extract_geometry scenario_b) = [(100, 200, 0), (101, 200, 0), (100, 201, 0)]"
    by (simp add: run emit_face_def d init_state_def)
  show "all_faces (extract_geometry scenario_b) = [[0, 1, 2]]"
    by (simp add: run emit_face_def d init_state_def)
qed

theorem translated_block_face_as_direct_face_witness:
  "blocks scenario_b ''B'' = Some [Face3D (Value (0, 0, 0)) (Value (1, 0, 0)) (Value (0, 1, 0)) Absent]
   \<and> process_insert scenario_b init_state (Insert ''B'' (translation 100 200 0)) =
       process_3dface init_state
         (Face3D (Value (100, 200, 0)) (Value (101, 200, 0)) (Value (100, 201, 0)) Absent)"
  using translated_block_face_as_direct_face
    [where doc = scenario_b and block_name = "''B''" and st = init_state
       and block = "[Face3D (Value (0, 0, 0)) (Value (1, 0, 0)) (Value (0, 1, 0)) Absent]"
       and dx = 100 and dy = 200 and dz = 0]
  by (simp add: scenario_b_def query_def)

subsection \<open>The emptiness check\<close>

text \<open>
  Claim C8. After the three loops, the conversion raises the error exactly when the
  vertex buffer or the triangle buffer is empty; otherwise it goes on with the buffers and
  counters that the loops have built.
\<close>

theorem empty_geometry_check:
  "(dxf_to_stl_3dface doc = Inl RuntimeError \<longleftrightarrow>
      all_vertices (extract_geometry doc) = [] \<or> all_faces (extract_geometry doc) = [])
   \<and> (all_vertices (extract_geometry doc) \<noteq> [] \<and> all_faces (extract_geometry doc) \<noteq> []
        \<longrightarrow> dxf_to_stl_3dface doc = Inr (extract_geometry doc))"
  by (simp add: dxf_to_stl_3dface_def Let_def)

theorem empty_geometry_check_witness:
  "all_vertices (extract_geometry scenario_b) \<noteq> [] \<and> all_faces (extract_geometry scenario_b) \<noteq> []
   \<and> dxf_to_stl_3dface scenario_b = Inr (extract_geometry scenario_b)"
  using empty_geometry_check [of scenario_b]
  by (simp add: extract_geometry_def run_polylines_def run_inserts_def run_3dfaces_def
        scenario_b_def query_def entity_counts_def get_count_def translation_def
        emit_face_def dedup_def init_state_def)

subsection \<open>Polyface meshes: the vertex table and the range of the indices\<close>

lemma local_ordinal_0: "local_ordinal vl 0 = 0"
  by (simp add: local_ordinal_def)

lemma local_ordinal_Suc:
  "local_ordinal (r # rest) (Suc k) = (if location r \<noteq> Absent then 1 else 0) + local_ordinal rest k"
  by (simp add: local_ordinal_def)

lemma collect_locations_map:
  "collect_locations vl i vs vm = Some (vs', vm') \<Longrightarrow>
     vm' j = (if i \<le> j \<and> j < i + length vl \<and> location (vl ! (j - i)) \<noteq> Absent
              then Some (length vs + local_ordinal vl (j - i)) else vm j)"
proof (induction vl arbitrary: i vs vm)
  case Nil
  then show ?case by auto
next
  case (Cons r rest)
  show ?case
  proof (cases "location r")
    case Absent
    with Cons.prems have c: "collect_locations rest (i + 1) vs vm = Some (vs', vm')" by simp
    show ?thesis
    proof (cases "j \<le> i")
      case True
      then show ?thesis using Cons.IH [OF c, of ] Absent by auto
    next
      case False
      define k where "k = j - (i + 1)"
      have k: "j - i = Suc k" "j - (i + 1) = k" using False by (simp_all add: k_def)
      show ?thesis using Cons.IH [OF c] False Absent k by (auto simp: local_ordinal_Suc)
    qed
  next
    case Null
    with Cons.prems show ?thesis by simp
  next
    case (Value loc)
    with Cons.prems have c: "collect_locations rest (i + 1) (vs @ [loc]) (vm(i \<mapsto> length vs)) = Some (vs', vm')"
      by simp
    show ?thesis
    proof (cases "j \<le> i")
      case True
      then show ?thesis using Cons.IH [OF c] Value by (auto simp: local_ordinal_0)
    next
      case False
      define k where "k = j - (i + 1)"
      have k: "j - i = Suc k" "j - (i + 1) = k" using False by (simp_all add: k_def)
      show ?thesis using Cons.IH [OF c] False Value k by (auto simp: local_ordinal_Suc)
    qed
  next
    case Raising
    with Cons.prems show ?thesis by simp
  qed
qed

lemma collect_locations_vertices:
  "collect_locations vl i vs vm = Some (vs', vm') \<Longrightarrow>
     length vs' = length vs + length (filter (\<lambda>r. location r \<noteq> Absent) vl)
     \<and> (\<forall>k < length vs. vs' ! k = vs ! k)
     \<and> (\<forall>j < length vl. \<forall>p. location (vl ! j) = Value p \<longrightarrow> vs' ! (length vs + local_ordinal vl j) = p)"
proof (induction vl arbitrary: i vs vm)
  case Nil
  then show ?case by simp
next
  case (Cons r rest)
  show ?case
  proof (cases "location r")
    case Absent
    with Cons.prems have c: "collect_locations rest (i + 1) vs vm = Some (vs', vm')" by simp
    note ih = Cons.IH [OF c]
    note ih1 = ih [THEN conjunct1]
    note ih2 = ih [THEN conjunct2, THEN conjunct1]
    note ih3 = ih [THEN conjunct2, THEN conjunct2, rule_format]
    have "vs' ! (length vs + local_ordinal (r # rest) j) = p"
      if j: "j < length (r # rest)" and p: "location ((r # rest) ! j) = Value p" for j p
    proof (cases j)
      case 0
      with p Absent show ?thesis by simp
    next
      case (Suc k)
      with j p have "k < length rest" "location (rest ! k) = Value p" by simp_all
      from ih3 [OF this] show ?thesis using Suc Absent by (simp add: local_ordinal_Suc)
    qed
    then have "\<forall>j < length (r # rest). \<forall>p. location ((r # rest) ! j) = Value p
        \<longrightarrow> vs' ! (length vs + local_ordinal (r # rest) j) = p"
      by blast
    moreover have "length vs' = length vs + length (filter (\<lambda>r. location r \<noteq> Absent) (r # rest))"
      using ih1 Absent by simp
    ultimately show ?thesis using ih2 by blast
  next
    case Null
    with Cons.prems show ?thesis by simp
  next
    case (Value loc)
    with Cons.prems have c: "collect_locations rest (i + 1) (vs @ [loc]) (vm(i \<mapsto> length vs)) = Some (vs', vm')"
      by simp
    note ih = Cons.IH [OF c]
    note ih1 = ih [THEN conjunct1]
    note ih2 = ih [THEN conjunct2, THEN conjunct1, rule_format]
    note ih3 = ih [THEN conjunct2, THEN conjunct2, rule_format]
    have keep: "\<forall>k < length vs. vs' ! k = vs ! k"
    proof (intro allI impI)
      fix k assume "k < length vs"
      then have "k < length (vs @ [loc])" by simp
      from ih2 [OF this] show "vs' ! k = vs ! k" using \<open>k < length vs\<close> by (simp add: nth_append)
    qed
    have here: "vs' ! length vs = loc"
      using ih2 [of "length vs"] by simp
    have "vs' ! (length vs + local_ordinal (r # rest) j) = p"
      if j: "j < length (r # rest)" and p: "location ((r # rest) ! j) = Value p" for j p
    proof (cases j)
      case 0
      with p Value here show ?thesis by (simp add: local_ordinal_0)
    next
      case (Suc k)
      with j p have "k < length rest" "location (rest ! k) = Value p" by simp_all
      from ih3 [OF this] show ?thesis using Suc Value by (simp add: local_ordinal_Suc)
    qed
    then have "\<forall>j < length (r # rest). \<forall>p. location ((r # rest) ! j) = Value p
        \<longrightarrow> vs' ! (length vs + local_ordinal (r # rest) j) = p"
      by blast
    moreover have "length vs' = length vs + length (filter (\<lambda>r. location r \<noteq> Absent) (r # rest))"
      using ih1 Value by simp
    ultimately show ?thesis using keep by blast
  next
    case Raising
    with Cons.prems show ?thesis by simp
  qed
qed

lemma local_ordinal_less:
  assumes "j < length vl" "location (vl ! j) \<noteq> Absent"
  shows "local_ordinal vl j < length (filter (\<lambda>r. location r \<noteq> Absent) vl)"
proof -
  have "filter (\<lambda>r. location r \<noteq> Absent) vl =
      filter (\<lambda>r. location r \<noteq> Absent) (take j vl) @ filter (\<lambda>r. location r \<noteq> Absent) (drop j vl)"
    by (metis append_take_drop_id filter_append)
  moreover have "drop j vl = vl ! j # drop (Suc j) vl"
    using assms(1) by (simp add: Cons_nth_drop_Suc)
  ultimately show ?thesis using assms(2) by (simp add: local_ordinal_def)
qed

lemma local_ordinal_prefix:
  assumes "\<forall>r\<in>set (take j vl). location r \<noteq> Absent" "j \<le> length vl"
  shows "local_ordinal vl j = j"
  using assms by (simp add: local_ordinal_def)

lemma collect_locations_range:
  assumes "collect_locations vl 0 [] Map.empty = Some (vs, vm)" "vm j = Some k"
  shows "k < length vs"
proof -
  have m: "vm j = (if j < length vl \<and> location (vl ! j) \<noteq> Absent
                   then Some (local_ordinal vl j) else None)"
    using collect_locations_map [OF assms(1), of j] by simp
  with assms(2) have j: "j < length vl" "location (vl ! j) \<noteq> Absent" "k = local_ordinal vl j"
    by (auto split: if_splits)
  have "length vs = length (filter (\<lambda>r. location r \<noteq> Absent) vl)"
    using collect_locations_vertices [OF assms(1)] by simp
  with local_ordinal_less [OF j(1,2)] j(3) show ?thesis by simp
qed

lemma resolve_indices_range:
  assumes vm: "\<And>j k. vm j = Some k \<Longrightarrow> k < n"
  shows "resolve_indices attrs vm off fi = Some fi' \<Longrightarrow> \<forall>i\<in>set fi. off \<le> i \<and> i < off + n
     \<Longrightarrow> \<forall>i\<in>set fi'. off \<le> i \<and> i < off + n"
proof (induction attrs arbitrary: fi)
  case Nil
  then show ?case by simp
next
  case (Cons x attrs)
  show ?case
  proof (cases x)
    case Absent
    with Cons.prems(1) have "resolve_indices attrs vm off fi = Some fi'" by simp
    from Cons.IH [OF this Cons.prems(2)] show ?thesis .
  next
    case Null
    with Cons.prems(1) have "resolve_indices attrs vm off fi = Some fi'" by simp
    from Cons.IH [OF this Cons.prems(2)] show ?thesis .
  next
    case Raising
    with Cons.prems(1) show ?thesis by simp
  next
    case (Value idx)
    show ?thesis
    proof (cases "idx \<noteq> 0 \<and> vm (nat (\<bar>idx\<bar> - 1)) \<noteq> None")
      case False
      with Value Cons.prems(1) have "resolve_indices attrs vm off fi = Some fi'"
        by (auto simp: Let_def split: if_splits option.splits)
      from Cons.IH [OF this Cons.prems(2)] show ?thesis .
    next
      case True
      then obtain k where k: "vm (nat (\<bar>idx\<bar> - 1)) = Some k" by blast
      with True Value Cons.prems(1) have r: "resolve_indices attrs vm off (fi @ [k + off]) = Some fi'"
        by (simp add: Let_def)
      have "k < n" using vm [OF k] .
      with Cons.prems(2) have "\<forall>i\<in>set (fi @ [k + off]). off \<le> i \<and> i < off + n" by auto
      from Cons.IH [OF r this] show ?thesis .
    qed
  qed
qed

lemma append_faces_new:
  "\<exists>new. append_faces faces fi = faces @ new \<and> (\<forall>t\<in>set new. length t = 3 \<and> set t \<subseteq> set fi)"
proof -
  consider "length fi = 3" | "length fi = 4" | "length fi \<noteq> 3" "length fi \<noteq> 4" by blast
  then show ?thesis
  proof cases
    case 1
    then have "append_faces faces fi = faces @ [fi]" by (simp add: append_faces_def)
    moreover have "\<forall>t\<in>set [fi]. length t = 3 \<and> set t \<subseteq> set fi" using 1 by simp
    ultimately show ?thesis by blast
  next
    case 2
    then have "append_faces faces fi = faces @ [[fi ! 0, fi ! 1, fi ! 2], [fi ! 0, fi ! 2, fi ! 3]]"
      by (simp add: append_faces_def)
    moreover have "fi ! 0 \<in> set fi" "fi ! 1 \<in> set fi" "fi ! 2 \<in> set fi" "fi ! 3 \<in> set fi"
      using 2 by simp_all
    then have "\<forall>t\<in>set [[fi ! 0, fi ! 1, fi ! 2], [fi ! 0, fi ! 2, fi ! 3]]. length t = 3 \<and> set t \<subseteq> set fi"
      by simp
    ultimately show ?thesis by blast
  next
    case 3
    then have "append_faces faces fi = faces @ []" by (simp add: append_faces_def)
    moreover have "\<forall>t\<in>set ([] :: nat list list). length t = 3 \<and> set t \<subseteq> set fi" by simp
    ultimately show ?thesis by blast
  qed
qed

lemma extract_faces_new:
  assumes vm: "\<And>j k. vm j = Some k \<Longrightarrow> k < n"
  shows "\<exists>new. (extract_faces vl vm off faces = Inl (faces @ new)
                \<or> extract_faces vl vm off faces = Inr (faces @ new))
       \<and> (\<forall>t\<in>set new. length t = 3 \<and> (\<forall>i\<in>set t. off \<le> i \<and> i < off + n))"
proof (induction vl arbitrary: faces)
  case Nil
  have "extract_faces [] vm off faces = Inr (faces @ [])" by simp
  then show ?case by (intro exI [of _ "[]"]) simp
next
  case (Cons r rest)
  let ?attrs = "[vtx0 r, vtx1 r, vtx2 r, vtx3 r]"
  have stop: ?case if "extract_faces (r # rest) vm off faces = Inl faces"
    using that by (intro exI [of _ "[]"]) simp
  show ?case
  proof (cases "vtx0 r")
    case Absent
    then have "extract_faces (r # rest) vm off faces = extract_faces rest vm off faces" by simp
    with Cons.IH [of faces] show ?thesis by simp
  next
    case Raising
    then show ?thesis by (intro stop) simp
  next
    case Null
    show ?thesis
    proof (cases "resolve_indices ?attrs vm off []")
      case None
      with Null show ?thesis by (intro stop) simp
    next
      case (Some fi)
      with Null have e: "extract_faces (r # rest) vm off faces =
          extract_faces rest vm off (append_faces faces fi)" by simp
      have rg: "\<forall>i\<in>set fi. off \<le> i \<and> i < off + n"
        using resolve_indices_range [OF vm Some] by simp
      obtain new1 where n1: "append_faces faces fi = faces @ new1"
        "\<forall>t\<in>set new1. length t = 3 \<and> set t \<subseteq> set fi"
        using append_faces_new by blast
      from Cons.IH [of "faces @ new1"] obtain new2 where n2:
        "extract_faces rest vm off (faces @ new1) = Inl ((faces @ new1) @ new2)
          \<or> extract_faces rest vm off (faces @ new1) = Inr ((faces @ new1) @ new2)"
        "\<forall>t\<in>set new2. length t = 3 \<and> (\<forall>i\<in>set t. off \<le> i \<and> i < off + n)"
        by blast
      have "\<forall>t\<in>set (new1 @ new2). length t = 3 \<and> (\<forall>i\<in>set t. off \<le> i \<and> i < off + n)"
        using n1(2) n2(2) rg by auto
      moreover have "extract_faces (r # rest) vm off faces = Inl (faces @ new1 @ new2)
          \<or> extract_faces (r # rest) vm off faces = Inr (faces @ new1 @ new2)"
        using n2(1) n1(1) e by simp
      ultimately show ?thesis by blast
    qed
  next
    case (Value v0)
    show ?thesis
    proof (cases "resolve_indices ?attrs vm off []")
      case None
      with Value show ?thesis by (intro stop) simp
    next
      case (Some fi)
      with Value have e: "extract_faces (r # rest) vm off faces =
          extract_faces rest vm off (append_faces faces fi)" by simp
      have rg: "\<forall>i\<in>set fi. off \<le> i \<and> i < off + n"
        using resolve_indices_range [OF vm Some] by simp
      obtain new1 where n1: "append_faces faces fi = faces @ new1"
        "\<forall>t\<in>set new1. length t = 3 \<and> set t \<subseteq> set fi"
        using append_faces_new by blast
      from Cons.IH [of "faces @ new1"] obtain new2 where n2:
        "extract_faces rest vm off (faces @ new1) = Inl ((faces @ new1) @ new2)
          \<or> extract_faces rest vm off (faces @ new1) = Inr ((faces @ new1) @ new2)"
        "\<forall>t\<in>set new2. length t = 3 \<and> (\<forall>i\<in>set t. off \<le> i \<and> i < off + n)"
        by blast
      have "\<forall>t\<in>set (new1 @ new2). length t = 3 \<and> (\<forall>i\<in>set t. off \<le> i \<and> i < off + n)"
        using n1(2) n2(2) rg by auto
      moreover have "extract_faces (r # rest) vm off faces = Inl (faces @ new1 @ new2)
          \<or> extract_faces (r # rest) vm off faces = Inr (faces @ new1 @ new2)"
        using n2(1) n1(1) e by simp
      ultimately show ?thesis by blast
    qed
  qed
qed

lemma process_polyface_step:
  assumes "vertex_offset st \<le> length (all_vertices st)"
  shows "vertex_offset (process_polyface st vl) \<le> length (all_vertices (process_polyface st vl))
     \<and> invalid_polyline st \<le> invalid_polyline (process_polyface st vl)
     \<and> (in_range st \<and> invalid_polyline (process_polyface st vl) = invalid_polyline st
          \<longrightarrow> in_range (process_polyface st vl))"
proof (cases "collect_locations vl 0 [] Map.empty")
  case None
  then show ?thesis using assms by (simp add: process_polyface_def)
next
  case (Some a)
  obtain vs vm where a: "a = (vs, vm)" by (cases a)
  have rng: "\<And>j k. vm j = Some k \<Longrightarrow> k < length vs"
    using collect_locations_range Some a by blast
  have "\<exists>new. (extract_faces vl vm (vertex_offset st) (all_faces st) = Inl (all_faces st @ new)
                \<or> extract_faces vl vm (vertex_offset st) (all_faces st) = Inr (all_faces st @ new))
       \<and> (\<forall>t\<in>set new. length t = 3
             \<and> (\<forall>i\<in>set t. vertex_offset st \<le> i \<and> i < vertex_offset st + length vs))"
    by (rule extract_faces_new) (rule rng)
  then obtain new where new:
    "extract_faces vl vm (vertex_offset st) (all_faces st) = Inl (all_faces st @ new)
      \<or> extract_faces vl vm (vertex_offset st) (all_faces st) = Inr (all_faces st @ new)"
    "\<forall>t\<in>set new. length t = 3 \<and> (\<forall>i\<in>set t. vertex_offset st \<le> i \<and> i < vertex_offset st + length vs)"
    by blast
  from new(1) show ?thesis
  proof
    assume "extract_faces vl vm (vertex_offset st) (all_faces st) = Inl (all_faces st @ new)"
    then show ?thesis using Some a assms by (simp add: process_polyface_def)
  next
    assume "extract_faces vl vm (vertex_offset st) (all_faces st) = Inr (all_faces st @ new)"
    then have st': "process_polyface st vl =
        st\<lparr>valid_polyline := valid_polyline st + 1, all_faces := all_faces st @ new,
           all_vertices := all_vertices st @ vs, vertex_offset := vertex_offset st + length vs\<rparr>"
      using Some a by (simp add: process_polyface_def)
    have "in_range (process_polyface st vl)" if ir: "in_range st"
    proof -
      have "length t = 3 \<and> (\<forall>i\<in>set t. i < length (all_vertices st @ vs))"
        if t: "t \<in> set (all_faces st @ new)" for t
      proof (cases "t \<in> set (all_faces st)")
        case True
        with ir have "length t = 3" "\<forall>i\<in>set t. i < length (all_vertices st)"
          by (simp_all add: in_range_def)
        then show ?thesis by auto
      next
        case False
        with t have "t \<in> set new" by simp
        with new(2) have "length t = 3"
          "\<forall>i\<in>set t. i < vertex_offset st + length vs" by auto
        with assms show ?thesis by auto
      qed
      then show ?thesis by (simp add: in_range_def st')
    qed
    then show ?thesis using assms by (simp add: st')
  qed
qed

subsection \<open>Invariants of the buffers\<close>

lemma fresh_triangles_refl: "fresh_triangles st st"
  by (simp add: fresh_triangles_def)

lemma emit_face_fresh: "fresh_triangles st (emit_face st cs)"
proof (cases "3 \<le> length cs \<and> 3 \<le> length (dedup cs)")
  case False
  then have "emit_face st cs = st\<lparr>invalid_3dface := invalid_3dface st + 1\<rparr>"
    by (auto simp: emit_face_def Let_def)
  then show ?thesis by (simp add: fresh_triangles_def)
next
  case True
  show ?thesis
  proof (cases "length (dedup cs) = 3")
    case True
    with \<open>3 \<le> length cs \<and> 3 \<le> length (dedup cs)\<close> show ?thesis
      by (simp add: emit_face_def Let_def fresh_triangles_def)
  next
    case False
    with True have "4 \<le> length (dedup cs)" by linarith
    moreover from this have "dedup cs \<noteq> []" by auto
    ultimately show ?thesis using True False
      by (simp add: emit_face_def Let_def fresh_triangles_def)
  qed
qed

lemma emit_face_keeps:
  "vertex_offset (emit_face st cs) = vertex_offset st
   \<and> invalid_polyline (emit_face st cs) = invalid_polyline st"
  by (simp add: emit_face_def Let_def)

lemma process_3dface_fresh: "fresh_triangles st (process_3dface st e)"
proof (cases e)
  case (Face3D a b c d)
  show ?thesis
  proof (cases "collect_corners [a, b, c, d] []")
    case None
    with Face3D show ?thesis by (simp add: fresh_triangles_def)
  next
    case (Some cs)
    with Face3D show ?thesis by (simp add: emit_face_fresh)
  qed
qed (simp_all add: fresh_triangles_refl)

lemma process_block_3dface_fresh: "fresh_triangles st (process_block_3dface m st e)"
proof (cases e)
  case (Face3D a b c d)
  show ?thesis
  proof (cases "collect_corners_transformed m [a, b, c, d] []")
    case None
    with Face3D show ?thesis by (simp add: fresh_triangles_def)
  next
    case (Some cs)
    with Face3D show ?thesis by (simp add: emit_face_fresh)
  qed
qed (simp_all add: fresh_triangles_refl)

lemma process_3dface_keeps:
  "vertex_offset (process_3dface st e) = vertex_offset st
   \<and> invalid_polyline (process_3dface st e) = invalid_polyline st"
proof (cases e)
  case (Face3D a b c d)
  then show ?thesis
    by (cases "collect_corners [a, b, c, d] []") (simp_all add: emit_face_keeps)
qed simp_all

lemma process_block_3dface_keeps:
  "vertex_offset (process_block_3dface m st e) = vertex_offset st
   \<and> invalid_polyline (process_block_3dface m st e) = invalid_polyline st"
proof (cases e)
  case (Face3D a b c d)
  then show ?thesis
    by (cases "collect_corners_transformed m [a, b, c, d] []") (simp_all add: emit_face_keeps)
qed simp_all

lemma fresh_triangles_faces_ok:
  assumes "faces_ok st" "fresh_triangles st st'"
  shows "faces_ok st'"
proof -
  from assms(2) obtain u new where u: "all_vertices st' = all_vertices st @ u"
    and new: "all_faces st' = all_faces st @ new"
    by (auto simp: fresh_triangles_def prefix_def)
  have n: "\<forall>t\<in>set new. length t = 3 \<and> distinct t \<and> (\<forall>i\<in>set t. i < length (all_vertices st'))"
    using assms(2) new by (simp add: fresh_triangles_def)
  have "length t = 3 \<and> distinct t \<and> (\<forall>i\<in>set t. i < length (all_vertices st'))"
    if t: "t \<in> set (all_faces st')" for t
  proof (cases "t \<in> set new")
    case True
    with n show ?thesis by blast
  next
    case False
    with t new have "t \<in> set (all_faces st)" by simp
    with assms(1) have "length t = 3" "distinct t" "\<forall>i\<in>set t. i < length (all_vertices st)"
      by (simp_all add: faces_ok_def)
    then show ?thesis using u by auto
  qed
  then show ?thesis by (simp add: faces_ok_def)
qed

lemma foldl_invariant:
  "P st \<Longrightarrow> (\<And>s e. P s \<Longrightarrow> P (f s e)) \<Longrightarrow> P (foldl f st es)"
  by (induction es arbitrary: st) simp_all

lemma face_stage_3dface: "face_stage st \<Longrightarrow> face_stage (process_3dface st e)"
  using fresh_triangles_faces_ok [OF _ process_3dface_fresh, of st e] process_3dface_keeps [of st e]
  by (simp add: face_stage_def)

lemma face_stage_block_3dface: "face_stage st \<Longrightarrow> face_stage (process_block_3dface m st e)"
  using fresh_triangles_faces_ok [OF _ process_block_3dface_fresh, of st m e]
    process_block_3dface_keeps [of m st e]
  by (simp add: face_stage_def)

lemma face_stage_insert: "face_stage st \<Longrightarrow> face_stage (process_insert doc st e)"
proof (cases e)
  case (Insert block_name m)
  assume st: "face_stage st"
  show ?thesis
  proof (cases "blocks doc block_name")
    case None
    with Insert st show ?thesis by simp
  next
    case (Some block)
    have "face_stage (foldl (process_block_3dface m) st (query ''3DFACE'' block))"
      using st by (rule foldl_invariant) (rule face_stage_block_3dface)
    with Insert Some show ?thesis by simp
  qed
qed simp_all

lemma face_stage_init: "face_stage init_state"
  by (simp add: face_stage_def faces_ok_def init_state_def)

lemma face_stage_run_3dfaces: "face_stage (run_3dfaces doc init_state)"
  unfolding run_3dfaces_def
  using face_stage_init by (rule foldl_invariant) (rule face_stage_3dface)

lemma face_stage_run_inserts: "face_stage (run_inserts doc (run_3dfaces doc init_state))"
proof (cases "get_count (entity_counts (modelspace doc)) ''INSERT'' > 0")
  case True
  have "face_stage (foldl (process_insert doc) (run_3dfaces doc init_state)
      (query ''INSERT'' (modelspace doc)))"
    using face_stage_run_3dfaces by (rule foldl_invariant) (rule face_stage_insert)
  with True show ?thesis by (simp add: run_inserts_def)
next
  case False
  then show ?thesis using face_stage_run_3dfaces [of doc] by (simp add: run_inserts_def)
qed

lemma polyline_stage_step: "polyline_stage st \<Longrightarrow> polyline_stage (process_polyline st e)"
proof (cases e)
  case (Polyline is_poly_face_mesh vertex_list)
  assume st: "polyline_stage st"
  show ?thesis
  proof (cases is_poly_face_mesh)
    case False
    with Polyline st show ?thesis by simp
  next
    case True
    from st have off: "vertex_offset st \<le> length (all_vertices st)"
      by (simp add: polyline_stage_def)
    note step = process_polyface_step [OF off, of vertex_list]
    have "polyline_stage (process_polyface st vertex_list)"
      unfolding polyline_stage_def
    proof (intro conjI impI)
      show "vertex_offset (process_polyface st vertex_list)
          \<le> length (all_vertices (process_polyface st vertex_list))"
        using step by blast
    next
      assume z: "invalid_polyline (process_polyface st vertex_list) = 0"
      with step have "invalid_polyline st = 0" by simp
      with st z step show "in_range (process_polyface st vertex_list)"
        by (simp add: polyline_stage_def)
    qed
    with Polyline True show ?thesis by simp
  qed
qed simp_all

lemma face_stage_polyline_stage: "face_stage st \<Longrightarrow> polyline_stage st"
  by (simp add: face_stage_def polyline_stage_def faces_ok_def in_range_def)

lemma polyline_stage_extract_geometry: "polyline_stage (extract_geometry doc)"
proof -
  let ?st2 = "run_inserts doc (run_3dfaces doc init_state)"
  have st2: "polyline_stage ?st2"
    using face_stage_run_inserts by (rule face_stage_polyline_stage)
  show ?thesis
  proof (cases "get_count (entity_counts (modelspace doc)) ''POLYLINE'' > 0")
    case True
    have "polyline_stage (foldl process_polyline ?st2 (query ''POLYLINE'' (modelspace doc)))"
      using st2 by (rule foldl_invariant) (rule polyline_stage_step)
    with True show ?thesis by (simp add: extract_geometry_def run_polylines_def)
  next
    case False
    with st2 show ?thesis by (simp add: extract_geometry_def run_polylines_def)
  qed
qed

subsection \<open>Evaluation of the reference documents\<close>

lemmas eval_defs = extract_geometry_def run_polylines_def run_inserts_def run_3dfaces_def
  query_def entity_counts_def get_count_def emit_face_def dedup_def init_state_def
  process_polyface_def vertex_record_def face_record_def append_faces_def
  triangle_face_def triangle_polyface_def

lemma extract_mixed_doc:
  "extract_geometry mixed_doc =
     \<lparr>all_vertices = [(0, 0, 0), (1, 0, 0), (0, 1, 0), (5, 5, 5), (6, 5, 5), (5, 6, 5)],
      all_faces = [[0, 1, 2], [0, 1, 2]], vertex_offset = 3,
      valid_3dface = 1, invalid_3dface = 0, valid_polyline = 1, invalid_polyline = 0\<rparr>"
  by (simp add: eval_defs mixed_doc_def)

subsection \<open>The offset of a polyface mesh\<close>

text \<open>
  Claim C1, at the document that holds one direct face and then one polyface mesh: the
  vertex buffer holds the three corners of the face and then the three vertices of the
  polyface mesh, at the positions 3, 4 and 5; the triangle of the polyface mesh is
  \<open>[0, 1, 2]\<close>, which are the positions of the corners of the direct face. The offset of
  line 245 counts the vertices of the polyface meshes only.
\<close>

theorem polyface_triangle_points_to_face_vertices:
  "all_vertices (extract_geometry mixed_doc) =
     [(0, 0, 0), (1, 0, 0), (0, 1, 0), (5, 5, 5), (6, 5, 5), (5, 6, 5)]
   \<and> all_faces (extract_geometry mixed_doc) = [[0, 1, 2], [0, 1, 2]]
   \<and> map ((!) (all_vertices (extract_geometry mixed_doc))) (all_faces (extract_geometry mixed_doc) ! 1)
       = [(0, 0, 0), (1, 0, 0), (0, 1, 0)]"
  by (simp add: extract_mixed_doc)

subsection \<open>The counters of the polyface meshes\<close>

text \<open>
  Claim C5, at a polyface mesh whose decoding raises: the counter of valid polyface
  meshes grows by 1 for every polyface mesh, since line 219 is the first statement of the
  \<open>try\<close>; the handler adds 1 to the counter of invalid ones, so the entity is counted
  twice. The entities after it are processed: the second polyface mesh of the document
  gives its triangle.
\<close>

theorem raising_polyface_counted_valid:
  "valid_polyline (process_polyface st vertex_list) = valid_polyline st + 1
   \<and> invalid_polyline (process_polyface st [null_location]) = invalid_polyline st + 1
   \<and> valid_polyline (extract_geometry raising_polyface_doc) = 2
   \<and> invalid_polyline (extract_geometry raising_polyface_doc) = 1
   \<and> all_faces (extract_geometry raising_polyface_doc) = [[0, 1, 2]]"
proof -
  have 1: "valid_polyline (process_polyface st vertex_list) = valid_polyline st + 1"
    by (simp add: process_polyface_def Let_def split: option.splits sum.splits prod.splits)
  have 2: "invalid_polyline (process_polyface st [null_location]) = invalid_polyline st + 1"
    by (simp add: process_polyface_def null_location_def)
  have 3: "extract_geometry raising_polyface_doc =
     \<lparr>all_vertices = [(5, 5, 5), (6, 5, 5), (5, 6, 5)], all_faces = [[0, 1, 2]], vertex_offset = 3,
      valid_3dface = 0, invalid_3dface = 0, valid_polyline = 2, invalid_polyline = 1\<rparr>"
    by (simp add: eval_defs raising_polyface_doc_def null_location_def)
  show ?thesis using 1 2 by (simp add: 3)
qed

subsection \<open>The indices of the triangles\<close>

text \<open>
  Claim C2 as stated fails: the triangle of a polyface mesh whose face record is
  \<open>[1, 1, 2, 0]\<close> has the index 0 twice.
\<close>

theorem polyface_triangle_repeats_index:
  "[0, 0, 1] \<in> set (all_faces (extract_geometry repeated_index_doc)) \<and> \<not> distinct [0 :: nat, 0, 1]"
  by (simp add: eval_defs repeated_index_doc_def)

text \<open>
  Claim C2, amended. Every face entity, direct or nested in a block, appends its vertices
  and then its triangles, and each of these triangles has three pairwise distinct indices
  that point to the vertices this entity has appended; so after the loops over the faces
  and the block instances every triangle has three distinct indices within the vertex
  buffer. For the whole conversion: when no polyface mesh has raised, every triangle of
  the final buffer has three indices within the final vertex buffer.
\<close>

theorem face_triangles_distinct_in_range:
  "(st' = process_3dface st e \<or> st' = process_block_3dface m st e \<longrightarrow>
      prefix (all_vertices st) (all_vertices st') \<and> prefix (all_faces st) (all_faces st')
      \<and> (\<forall>t\<in>set (drop (length (all_faces st)) (all_faces st')).
            length t = 3 \<and> distinct t
            \<and> (\<forall>i\<in>set t. length (all_vertices st) \<le> i \<and> i < length (all_vertices st'))))
   \<and> (\<forall>t\<in>set (all_faces (run_inserts doc (run_3dfaces doc init_state))).
         length t = 3 \<and> distinct t
         \<and> (\<forall>i\<in>set t. i < length (all_vertices (run_inserts doc (run_3dfaces doc init_state)))))
   \<and> (invalid_polyline (extract_geometry doc) = 0 \<longrightarrow>
        (\<forall>t\<in>set (all_faces (extract_geometry doc)).
           length t = 3 \<and> (\<forall>i\<in>set t. i < length (all_vertices (extract_geometry doc)))))"
proof (intro conjI impI)
  assume "st' = process_3dface st e \<or> st' = process_block_3dface m st e"
  then have f: "fresh_triangles st st'"
    using process_3dface_fresh process_block_3dface_fresh by blast
  from f show "prefix (all_vertices st) (all_vertices st')" by (simp add: fresh_triangles_def)
  from f show "prefix (all_faces st) (all_faces st')" by (simp add: fresh_triangles_def)
  from f show "\<forall>t\<in>set (drop (length (all_faces st)) (all_faces st')).
            length t = 3 \<and> distinct t
            \<and> (\<forall>i\<in>set t. length (all_vertices st) \<le> i \<and> i < length (all_vertices st'))"
    by (simp add: fresh_triangles_def)
next
  show "\<forall>t\<in>set (all_faces (run_inserts doc (run_3dfaces doc init_state))).
         length t = 3 \<and> distinct t
         \<and> (\<forall>i\<in>set t. i < length (all_vertices (run_inserts doc (run_3dfaces doc init_state))))"
    using face_stage_run_inserts [of doc] by (simp add: face_stage_def faces_ok_def)
next
  assume "invalid_polyline (extract_geometry doc) = 0"
  then show "\<forall>t\<in>set (all_faces (extract_geometry doc)).
           length t = 3 \<and> (\<forall>i\<in>set t. i < length (all_vertices (extract_geometry doc)))"
    using polyline_stage_extract_geometry [of doc] by (simp add: polyline_stage_def in_range_def)
qed

theorem face_triangles_distinct_in_range_witness:
  "invalid_polyline (extract_geometry mixed_doc) = 0
   \<and> all_faces (extract_geometry mixed_doc) = [[0, 1, 2], [0, 1, 2]]
   \<and> length (all_vertices (extract_geometry mixed_doc)) = 6
   \<and> all_faces (run_inserts mixed_doc (run_3dfaces mixed_doc init_state)) = [[0, 1, 2]]
   \<and> length (all_vertices (run_inserts mixed_doc (run_3dfaces mixed_doc init_state))) = 3
   \<and> drop (length (all_faces init_state)) (all_faces (process_3dface init_state triangle_face))
       = [[0, 1, 2]]
   \<and> length (all_vertices init_state) = 0
   \<and> length (all_vertices (process_3dface init_state triangle_face)) = 3"
  using face_triangles_distinct_in_range
    [where doc = mixed_doc and st = init_state and e = triangle_face
       and st' = "process_3dface init_state triangle_face" and m = "translation 0 0 0"]
  by (simp add: extract_mixed_doc) (simp add: eval_defs mixed_doc_def)

subsection \<open>The resolution of the face indices\<close>

lemma collect_locations_lookup:
  assumes "collect_locations vl 0 [] Map.empty = Some (vs, vm)"
  shows "vm j = (if j < length vl \<and> location (vl ! j) \<noteq> Absent
                 then Some (local_ordinal vl j) else None)"
  using collect_locations_map [OF assms, of j] by simp

lemma collect_locations_values:
  "collect_locations vl i vs vm = Some res \<Longrightarrow> r \<in> set vl \<Longrightarrow>
     location r = Absent \<or> (\<exists>p. location r = Value p)"
proof (induction vl arbitrary: i vs vm)
  case Nil
  then show ?case by simp
next
  case (Cons x rest)
  show ?case
  proof (cases "location x")
    case Absent
    with Cons.prems(1) have c: "collect_locations rest (i + 1) vs vm = Some res" by simp
    show ?thesis
    proof (cases "r = x")
      case True
      with Absent show ?thesis by simp
    next
      case False
      with Cons.prems(2) have "r \<in> set rest" by simp
      from Cons.IH [OF c this] show ?thesis .
    qed
  next
    case Null
    with Cons.prems(1) show ?thesis by simp
  next
    case (Value loc)
    with Cons.prems(1) have c:
      "collect_locations rest (i + 1) (vs @ [loc]) (vm(i \<mapsto> length vs)) = Some res" by simp
    show ?thesis
    proof (cases "r = x")
      case True
      with Value have "location r = Value loc" by simp
      then show ?thesis by blast
    next
      case False
      with Cons.prems(2) have "r \<in> set rest" by simp
      from Cons.IH [OF c this] show ?thesis .
    qed
  next
    case Raising
    with Cons.prems(1) show ?thesis by simp
  qed
qed

lemma all_located_lookup:
  assumes "collect_locations vl 0 [] Map.empty = Some (vs, vm)"
    and "\<forall>r\<in>set vl. location r \<noteq> Absent"
  shows "length vs = length vl"
    and "vm j = (if j < length vl then Some j else None)"
    and "j < length vl \<Longrightarrow> location (vl ! j) = Value (vs ! j)"
proof -
  have f: "filter (\<lambda>r. location r \<noteq> Absent) vl = vl"
    using assms(2) by simp
  show len: "length vs = length vl"
    using collect_locations_vertices [OF assms(1)] by (simp add: f)
  have ord: "local_ordinal vl k = k" if "k \<le> length vl" for k
  proof -
    have "\<forall>r\<in>set (take k vl). location r \<noteq> Absent"
      using assms(2) by (meson in_set_takeD)
    then show ?thesis using that by (rule local_ordinal_prefix)
  qed
  show "vm j = (if j < length vl then Some j else None)"
  proof (cases "j < length vl")
    case True
    then have "location (vl ! j) \<noteq> Absent" using assms(2) by simp
    with True show ?thesis
      using collect_locations_lookup [OF assms(1), of j] ord [of j] by simp
  next
    case False
    then show ?thesis using collect_locations_lookup [OF assms(1), of j] by simp
  qed
  show "location (vl ! j) = Value (vs ! j)" if j: "j < length vl"
  proof -
    from j have m: "vl ! j \<in> set vl" by simp
    with assms(2) have na: "location (vl ! j) \<noteq> Absent" by blast
    from collect_locations_values [OF assms(1) m] na obtain p
      where p: "location (vl ! j) = Value p" by blast
    have "vs ! (length ([] :: vec3 list) + local_ordinal vl j) = p"
      using collect_locations_vertices [OF assms(1), THEN conjunct2, THEN conjunct2, rule_format, OF j p] .
    with ord [of j] j p show ?thesis by simp
  qed
qed

text \<open>
  Claim C7. For a polyface mesh whose sub-records all hold a location, as the document
  library exposes them, the local vertex table has one vertex for each sub-record, in
  their order. The index 0 never resolves. A non-zero index \<open>idx\<close> resolves to the local
  vertex \<open>abs(idx) - 1\<close> (its position plus the offset of the entity) when that vertex
  was collected, and is dropped otherwise. Four vertex records followed by the face record
  \<open>[1, 2, 3, 4]\<close> give exactly the two triangles \<open>(v0, v1, v2)\<close> and \<open>(v0, v2, v3)\<close>,
  followed by \<open>[1, 2, 3, 0]\<close> exactly the triangle \<open>(v0, v1, v2)\<close>: their indices are the
  offset plus 0, 1, 2 and 0, 2, 3, which are the positions of these vertices in the vertex
  buffer when the offset is the length of the buffer. A face record with fewer than 3
  resolved indices has no effect at all: no triangle and no counter.
\<close>

theorem polyface_index_resolution:
  assumes "collect_locations vl 0 [] Map.empty = Some (vs, vm)"
    and "\<forall>r\<in>set vl. location r \<noteq> Absent"
  shows "length vs = length vl
     \<and> (\<forall>j < length vl. location (vl ! j) = Value (vs ! j))
     \<and> resolve_indices (Value 0 # attrs) vm off fi = resolve_indices attrs vm off fi
     \<and> (idx \<noteq> 0 \<and> nat (\<bar>idx\<bar> - 1) < length vs \<longrightarrow>
          resolve_indices (Value idx # attrs) vm off fi =
            resolve_indices attrs vm off (fi @ [nat (\<bar>idx\<bar> - 1) + off]))
     \<and> (idx' \<noteq> 0 \<and> length vs \<le> nat (\<bar>idx'\<bar> - 1) \<longrightarrow>
          resolve_indices (Value idx' # attrs) vm off fi = resolve_indices attrs vm off fi)
     \<and> (u = Absent \<or> u = Null \<or> u = Value 0 \<longrightarrow>
          process_polyface st
            [located_record pa u u u u, located_record pb u u u u, located_record pc u u u u,
             located_record pd u u u u, located_record q (Value 1) (Value 2) (Value 3) (Value 4)] =
          st\<lparr>valid_polyline := valid_polyline st + 1,
             all_faces := all_faces st @ [[vertex_offset st, vertex_offset st + 1, vertex_offset st + 2],
                            [vertex_offset st, vertex_offset st + 2, vertex_offset st + 3]],
             all_vertices := all_vertices st @ [pa, pb, pc, pd, q],
             vertex_offset := vertex_offset st + 5\<rparr>
          \<and> process_polyface st
            [located_record pa u u u u, located_record pb u u u u, located_record pc u u u u,
             located_record pd u u u u, located_record q (Value 1) (Value 2) (Value 3) (Value 0)] =
          st\<lparr>valid_polyline := valid_polyline st + 1,
             all_faces := all_faces st @ [[vertex_offset st, vertex_offset st + 1, vertex_offset st + 2]],
             all_vertices := all_vertices st @ [pa, pb, pc, pd, q],
             vertex_offset := vertex_offset st + 5\<rparr>)
     \<and> (vertex_offset st = length (all_vertices st) \<longrightarrow>
          map ((!) (all_vertices st @ [pa, pb, pc, pd, q]))
            [vertex_offset st, vertex_offset st + 1, vertex_offset st + 2] = [pa, pb, pc]
          \<and> map ((!) (all_vertices st @ [pa, pb, pc, pd, q]))
            [vertex_offset st, vertex_offset st + 2, vertex_offset st + 3] = [pa, pc, pd])
     \<and> (resolve_indices [vtx0 r, vtx1 r, vtx2 r, vtx3 r] vm off [] = Some face_indices
          \<and> length face_indices < 3 \<longrightarrow>
          extract_faces (r # rest) vm off faces = extract_faces rest vm off faces)"
proof -
  note look = all_located_lookup [OF assms]
  have 0: "length vs = length vl" by (rule look(1))
  have 1: "\<forall>j < length vl. location (vl ! j) = Value (vs ! j)"
    using look(3) by blast
  have 2: "resolve_indices (Value 0 # attrs) vm off fi = resolve_indices attrs vm off fi"
    by simp
  have 3: "resolve_indices (Value idx # attrs) vm off fi =
            resolve_indices attrs vm off (fi @ [nat (\<bar>idx\<bar> - 1) + off])"
    if h: "idx \<noteq> 0 \<and> nat (\<bar>idx\<bar> - 1) < length vs"
  proof -
    from h 0 have "vm (nat (\<bar>idx\<bar> - 1)) = Some (nat (\<bar>idx\<bar> - 1))"
      using look(2) [of "nat (\<bar>idx\<bar> - 1)"] by simp
    with h show ?thesis by (simp add: Let_def)
  qed
  have 4: "resolve_indices (Value idx' # attrs) vm off fi = resolve_indices attrs vm off fi"
    if h: "idx' \<noteq> 0 \<and> length vs \<le> nat (\<bar>idx'\<bar> - 1)"
  proof -
    from h 0 have "vm (nat (\<bar>idx'\<bar> - 1)) = None"
      using look(2) [of "nat (\<bar>idx'\<bar> - 1)"] by simp
    with h show ?thesis by (simp add: Let_def)
  qed
  have 5: "process_polyface st
            [located_record pa u u u u, located_record pb u u u u, located_record pc u u u u,
             located_record pd u u u u, located_record q (Value 1) (Value 2) (Value 3) (Value 4)] =
          st\<lparr>valid_polyline := valid_polyline st + 1,
             all_faces := all_faces st @ [[vertex_offset st, vertex_offset st + 1, vertex_offset st + 2],
                            [vertex_offset st, vertex_offset st + 2, vertex_offset st + 3]],
             all_vertices := all_vertices st @ [pa, pb, pc, pd, q],
             vertex_offset := vertex_offset st + 5\<rparr>"
    if "u = Absent \<or> u = Null \<or> u = Value 0"
    using that by (elim disjE) (simp_all add: process_polyface_def located_record_def append_faces_def)
  have 6: "process_polyface st
            [located_record pa u u u u, located_record pb u u u u, located_record pc u u u u,
             located_record pd u u u u, located_record q (Value 1) (Value 2) (Value 3) (Value 0)] =
          st\<lparr>valid_polyline := valid_polyline st + 1,
             all_faces := all_faces st @ [[vertex_offset st, vertex_offset st + 1, vertex_offset st + 2]],
             all_vertices := all_vertices st @ [pa, pb, pc, pd, q],
             vertex_offset := vertex_offset st + 5\<rparr>"
    if "u = Absent \<or> u = Null \<or> u = Value 0"
    using that by (elim disjE) (simp_all add: process_polyface_def located_record_def append_faces_def)
  have 7: "map ((!) (all_vertices st @ [pa, pb, pc, pd, q]))
            [vertex_offset st, vertex_offset st + 1, vertex_offset st + 2] = [pa, pb, pc]
          \<and> map ((!) (all_vertices st @ [pa, pb, pc, pd, q]))
            [vertex_offset st, vertex_offset st + 2, vertex_offset st + 3] = [pa, pc, pd]"
    if "vertex_offset st = length (all_vertices st)"
    using that by (simp add: nth_append)
  have 8: "extract_faces (r # rest) vm off faces = extract_faces rest vm off faces"
    if "resolve_indices [vtx0 r, vtx1 r, vtx2 r, vtx3 r] vm off [] = Some face_indices
          \<and> length face_indices < 3"
    using that by (cases "vtx0 r") (simp_all add: append_faces_def)
  from 0 1 2 3 4 5 6 7 8 show ?thesis by blast
qed

theorem polyface_index_resolution_witness:
  "collect_locations located_quad 0 [] Map.empty =
     Some ([(0, 0, 0), (1, 0, 0), (1, 1, 0), (0, 1, 0), (0, 0, 0)],
       [0 \<mapsto> 0, Suc 0 \<mapsto> Suc 0, Suc (Suc 0) \<mapsto> Suc (Suc 0), Suc (Suc (Suc 0)) \<mapsto> Suc (Suc (Suc 0)),
        Suc (Suc (Suc (Suc 0))) \<mapsto> Suc (Suc (Suc (Suc 0)))])
   \<and> map location located_quad =
       [Value (0, 0, 0), Value (1, 0, 0), Value (1, 1, 0), Value (0, 1, 0), Value (0, 0, 0)]
   \<and> resolve_indices [Value (-3)]
        [0 \<mapsto> 0, Suc 0 \<mapsto> Suc 0, Suc (Suc 0) \<mapsto> Suc (Suc 0), Suc (Suc (Suc 0)) \<mapsto> Suc (Suc (Suc 0)),
         Suc (Suc (Suc (Suc 0))) \<mapsto> Suc (Suc (Suc (Suc 0)))] 7 [] = Some [9]
   \<and> resolve_indices [Value 9]
        [0 \<mapsto> 0, Suc 0 \<mapsto> Suc 0, Suc (Suc 0) \<mapsto> Suc (Suc 0), Suc (Suc (Suc 0)) \<mapsto> Suc (Suc (Suc 0)),
         Suc (Suc (Suc (Suc 0))) \<mapsto> Suc (Suc (Suc (Suc 0)))] 7 [] = Some []
   \<and> all_faces (process_polyface init_state located_quad) = [[0, 1, 2], [0, 2, 3]]
   \<and> vertex_offset init_state = length (all_vertices init_state)
   \<and> resolve_indices [Value 1, Value 2, Value 0, Value 0]
        [0 \<mapsto> 0, Suc 0 \<mapsto> Suc 0, Suc (Suc 0) \<mapsto> Suc (Suc 0), Suc (Suc (Suc 0)) \<mapsto> Suc (Suc (Suc 0)),
         Suc (Suc (Suc (Suc 0))) \<mapsto> Suc (Suc (Suc (Suc 0)))] 7 [] = Some [7, 8]
   \<and> extract_faces [located_record (0, 0, 0) (Value 1) (Value 2) (Value 0) (Value 0)]
        [0 \<mapsto> 0, Suc 0 \<mapsto> Suc 0, Suc (Suc 0) \<mapsto> Suc (Suc 0), Suc (Suc (Suc 0)) \<mapsto> Suc (Suc (Suc 0)),
         Suc (Suc (Suc (Suc 0))) \<mapsto> Suc (Suc (Suc (Suc 0)))] 7 [] = Inr []"
  using polyface_index_resolution
    [where vl = located_quad and vs = "[(0, 0, 0), (1, 0, 0), (1, 1, 0), (0, 1, 0), (0, 0, 0)]"
       and vm = "[0 \<mapsto> 0, Suc 0 \<mapsto> Suc 0, Suc (Suc 0) \<mapsto> Suc (Suc 0), Suc (Suc (Suc 0)) \<mapsto> Suc (Suc (Suc 0)), Suc (Suc (Suc (Suc 0))) \<mapsto> Suc (Suc (Suc (Suc 0)))]"
       and idx = "-3" and idx' = 9 and attrs = "[]" and fi = "[]" and off = 7 and u = Null
       and st = init_state and pa = "(0, 0, 0)" and pb = "(1, 0, 0)" and pc = "(1, 1, 0)"
       and pd = "(0, 1, 0)" and q = "(0, 0, 0)"
       and r = "located_record (0, 0, 0) (Value 1) (Value 2) (Value 0) (Value 0)"
       and face_indices = "[7, 8]" and rest = "[]" and faces = "[]"]
  by (simp add: located_quad_def located_record_def append_faces_def init_state_def
      process_polyface_def)

subsection \<open>Polyface meshes without faces\<close>

lemma extract_faces_none:
  assumes "\<forall>r\<in>set vl. vtx0 r = Absent
      \<or> (\<exists>fi. resolve_indices [vtx0 r, vtx1 r, vtx2 r, vtx3 r] vm off [] = Some fi \<and> length fi < 3)"
  shows "extract_faces vl vm off faces = Inr faces"
  using assms
proof (induction vl)
  case Nil
  show ?case by simp
next
  case (Cons r rest)
  then have rest: "extract_faces rest vm off faces = Inr faces" by simp
  from Cons.prems consider "vtx0 r = Absent"
    | fi where "resolve_indices [vtx0 r, vtx1 r, vtx2 r, vtx3 r] vm off [] = Some fi" "length fi < 3"
    by auto
  then show ?case
  proof cases
    case 1
    with rest show ?thesis by simp
  next
    case 2
    with rest show ?thesis by (cases "vtx0 r") (simp_all add: append_faces_def)
  qed
qed

text \<open>
  Claim C10. A polyface mesh that is decoded without an exception and has no face record
  with 3 or more resolved indices appends all its collected vertices, adds 1 to the
  counter of valid polyface meshes and appends no triangle. Alone in a document it gives a
  non-empty vertex buffer (when it holds a vertex) and an empty triangle buffer. After a
  direct face it gives a result that is handed on, whose vertex buffer holds a vertex that
  no triangle refers to.
\<close>

theorem polyface_without_faces_appends_vertices:
  assumes "collect_locations vl 0 [] Map.empty = Some (vs, vm)"
    and "\<forall>r\<in>set vl. vtx0 r = Absent
      \<or> (\<exists>fi. resolve_indices [vtx0 r, vtx1 r, vtx2 r, vtx3 r] vm (vertex_offset st) [] = Some fi
            \<and> length fi < 3)"
  shows "process_polyface st vl =
       st\<lparr>valid_polyline := valid_polyline st + 1,
          all_vertices := all_vertices st @ vs,
          vertex_offset := vertex_offset st + length vs\<rparr>
     \<and> (vs \<noteq> [] \<longrightarrow> all_vertices (process_polyface st vl) \<noteq> [])
     \<and> (st = init_state \<longrightarrow>
          all_vertices (extract_geometry \<lparr>modelspace = [Polyline True vl], blocks = b\<rparr>) = vs
          \<and> all_faces (extract_geometry \<lparr>modelspace = [Polyline True vl], blocks = b\<rparr>) = []
          \<and> valid_polyline (extract_geometry \<lparr>modelspace = [Polyline True vl], blocks = b\<rparr>) = 1)
     \<and> all_vertices (extract_geometry unreferenced_doc) = [(0, 0, 0), (1, 0, 0), (0, 1, 0), (9, 9, 9)]
     \<and> all_faces (extract_geometry unreferenced_doc) = [[0, 1, 2]]
     \<and> dxf_to_stl_3dface unreferenced_doc = Inr (extract_geometry unreferenced_doc)"
proof -
  have e: "extract_faces vl vm (vertex_offset st) (all_faces st) = Inr (all_faces st)"
    using assms(2) by (rule extract_faces_none)
  have p: "process_polyface st vl =
       st\<lparr>valid_polyline := valid_polyline st + 1,
          all_vertices := all_vertices st @ vs,
          vertex_offset := vertex_offset st + length vs\<rparr>"
    using assms(1) e by (simp add: process_polyface_def)
  have g: "extract_geometry \<lparr>modelspace = [Polyline True vl], blocks = b\<rparr> =
      process_polyface init_state vl"
    by (simp add: extract_geometry_def run_polylines_def run_inserts_def run_3dfaces_def
        query_def entity_counts_def get_count_def)
  have u: "extract_geometry unreferenced_doc =
     \<lparr>all_vertices = [(0, 0, 0), (1, 0, 0), (0, 1, 0), (9, 9, 9)], all_faces = [[0, 1, 2]],
      vertex_offset = 1, valid_3dface = 1, invalid_3dface = 0,
      valid_polyline = 1, invalid_polyline = 0\<rparr>"
    by (simp add: eval_defs unreferenced_doc_def)
  have d: "dxf_to_stl_3dface unreferenced_doc = Inr (extract_geometry unreferenced_doc)"
    by (simp add: dxf_to_stl_3dface_def u)
  have i: "st = init_state \<longrightarrow>
          all_vertices (extract_geometry \<lparr>modelspace = [Polyline True vl], blocks = b\<rparr>) = vs
          \<and> all_faces (extract_geometry \<lparr>modelspace = [Polyline True vl], blocks = b\<rparr>) = []
          \<and> valid_polyline (extract_geometry \<lparr>modelspace = [Polyline True vl], blocks = b\<rparr>) = 1"
    using p by (auto simp: g init_state_def)
  show ?thesis using p i d by (simp add: u)
qed

theorem polyface_without_faces_appends_vertices_witness:
  "collect_locations vertices_only_polyface 0 [] Map.empty =
     Some ([(9, 9, 9), (8, 8, 8)], [0 \<mapsto> 0, 1 \<mapsto> 1])
   \<and> map vtx0 vertices_only_polyface = [Absent, Absent, Value 1]
   \<and> resolve_indices [Value 1, Value 2, Value 0, Value 0] [0 \<mapsto> 0, 1 \<mapsto> 1]
        (vertex_offset init_state) [] = Some [0, 1]
   \<and> all_vertices (process_polyface init_state vertices_only_polyface) = [(9, 9, 9), (8, 8, 8)]
   \<and> all_faces (process_polyface init_state vertices_only_polyface) = []
   \<and> valid_polyline (process_polyface init_state vertices_only_polyface) = 1
   \<and> dxf_to_stl_3dface \<lparr>modelspace = [Polyline True vertices_only_polyface], blocks = Map.empty\<rparr>
       = Inl RuntimeError"
  using polyface_without_faces_appends_vertices
    [where vl = vertices_only_polyface and vs = "[(9, 9, 9), (8, 8, 8)]"
       and vm = "[0 \<mapsto> 0, 1 \<mapsto> 1]" and st = init_state and b = Map.empty]
  by (simp add: vertices_only_polyface_def vertex_record_def face_record_def init_state_def
      dxf_to_stl_3dface_def)

end
